theory Spec2Isabelle
  imports Main
begin

section \<open>Failures\<close>

text \<open>
  A Go function of the translator returns an \<open>error\<close> value, panics (a slice bound or a
  nil dereference), or, in the model only, runs out of recursion fuel. \<open>fmt.Errorf("...: %w", err)\<close>
  wraps an error value; a panic is not an error value and passes through unchanged.
\<close>

datatype err =
    ErrUnsupported
  | ErrBasic string
  | ErrWrap string err

datatype failure = Err err | Panic | OutOfFuel

fun wrap :: "string \<Rightarrow> failure \<Rightarrow> failure" where
  "wrap s (Err e) = Err (ErrWrap s e)"
| "wrap s Panic = Panic"
| "wrap s OutOfFuel = OutOfFuel"

section \<open>The schema (webrpc IR)\<close>

text \<open>
  \<open>schema.CoreType\<close>. \<open>T_Invalid\<close> stands for the zero value, the \<open>Type\<close> of a
  \<open>VarType\<close> literal that sets only \<open>Expr\<close>.
\<close>

datatype core_type =
    T_Invalid | T_Null | T_Any | T_Byte | T_Bool
  | T_Uint | T_Uint8 | T_Uint16 | T_Uint32 | T_Uint64
  | T_Int | T_Int8 | T_Int16 | T_Int32 | T_Int64
  | T_Float32 | T_Float64
  | T_String | T_Timestamp | T_Map | T_List | T_Struct

text \<open>A \<open>*schema.VarType\<close> is an address into the store of VarType records.\<close>

type_synonym addr = nat

text \<open>\<open>schema.TypeField\<close> with its \<open>TypeExtra\<close>; \<open>Meta\<close> is a list of one-entry maps.\<close>

record type_field =
  tf_Name :: string
  tf_Type :: "addr option"
  tf_Value :: string
  tf_Optional :: bool
  tf_Meta :: "(string \<times> string) list"

section \<open>appendOrOverrideExistingField\<close>

text \<open>
  The loop \<open>for i, item := range slice\<close> evaluates \<open>slice\<close> once: it visits the indices
  \<open>0 ..< n\<close> of the original header and reads \<open>item\<close> from the shared backing array \<open>b\<close>,
  while the body shortens the variable \<open>slice\<close> (length \<open>m\<close>) and shifts the array in place.
  \<open>slice[i+1:]\<close> panics when \<open>i + 1\<close> exceeds the current length.
\<close>

fun aoe_loop :: "string \<Rightarrow> nat list \<Rightarrow> type_field list \<times> nat \<Rightarrow> failure + (type_field list \<times> nat)" where
  "aoe_loop nm [] (b, m) = Inr (b, m)"
| "aoe_loop nm (i # is) (b, m) =
     (if tf_Name (b ! i) = nm then
        (if m < i + 1 then Inl Panic
         else aoe_loop nm is (take i b @ drop (i + 1) (take m b) @ drop (m - 1) b, m - 1))
      else aoe_loop nm is (b, m))"

definition appendOrOverrideExistingField :: "type_field list \<Rightarrow> type_field \<Rightarrow> failure + type_field list" where
  "appendOrOverrideExistingField slice newItem =
     (case aoe_loop (tf_Name newItem) [0 ..< length slice] (slice, length slice) of
        Inl e \<Rightarrow> Inl e
      | Inr (b, m) \<Rightarrow> Inr (take m b @ [newItem]))"

section \<open>Strings\<close>

fun hasPrefix :: "string \<Rightarrow> string \<Rightarrow> bool" where
  "hasPrefix s [] = True"
| "hasPrefix [] (p # ps) = False"
| "hasPrefix (c # s) (p # ps) = (c = p \<and> hasPrefix s ps)"

fun containsStr :: "string \<Rightarrow> string \<Rightarrow> bool" where
  "containsStr [] sub = hasPrefix [] sub"
| "containsStr (c # s) sub = (hasPrefix (c # s) sub \<or> containsStr s sub)"

definition hasSuffix :: "string \<Rightarrow> string \<Rightarrow> bool" where
  "hasSuffix s suf = hasPrefix (rev s) (rev suf)"

definition trimPrefix :: "string \<Rightarrow> string \<Rightarrow> string" where
  "trimPrefix s pre = (if hasPrefix s pre then drop (length pre) s else s)"

section \<open>getJsonTag\<close>

record jsonTag =
  Name :: string
  Value :: string
  IsString :: bool
  Omitempty :: bool

definition jsonTag_zero :: jsonTag where
  "jsonTag_zero = \<lparr>Name = [], Value = [], IsString = False, Omitempty = False\<rparr>"

text \<open>
  \<open>jsonTagRegex\<close> is \<^verbatim>\<open>\s?json:\"([^,\"]*)(,[^\"]*)?\"\<close>. \<open>jsonTagRegex_body\<close> matches
  the part after \<^verbatim>\<open>\s?\<close> at the start of its input and gives the two groups. Both
  starred classes are greedy and are followed by a character outside the class, so the
  longest run is the only one that can match.
\<close>

definition isSpace :: "char \<Rightarrow> bool" where
  "isSpace c = (c = CHR 0x09 \<or> c = CHR 0x0A \<or> c = CHR 0x0C \<or> c = CHR 0x0D \<or> c = CHR '' '')"

definition notCommaQuote :: "char \<Rightarrow> bool" where
  "notCommaQuote c = (c \<noteq> CHR '','' \<and> c \<noteq> CHR 0x22)"

definition notQuote :: "char \<Rightarrow> bool" where
  "notQuote c = (c \<noteq> CHR 0x22)"

definition jsonTagRegex_body :: "string \<Rightarrow> (string \<times> string) option" where
  "jsonTagRegex_body s =
     (if hasPrefix s ''json:\"'' then
        (let r = drop 6 s; g1 = takeWhile notCommaQuote r; r1 = dropWhile notCommaQuote r in
         case r1 of
           [] \<Rightarrow> None
         | c # r2 \<Rightarrow>
             if c = CHR 0x22 then Some (g1, [])
             else (case dropWhile notQuote r2 of
                     [] \<Rightarrow> None
                   | _ # _ \<Rightarrow> Some (g1, c # takeWhile notQuote r2)))
      else None)"

definition jsonTagRegex_at :: "string \<Rightarrow> (string \<times> string) option" where
  "jsonTagRegex_at s =
     (case s of
        [] \<Rightarrow> jsonTagRegex_body s
      | c # r \<Rightarrow>
          if isSpace c then
            (case jsonTagRegex_body r of Some g \<Rightarrow> Some g | None \<Rightarrow> jsonTagRegex_body s)
          else jsonTagRegex_body s)"

text \<open>\<open>FindStringSubmatch\<close>: the leftmost position at which the expression matches.\<close>

fun findStringSubmatch :: "string \<Rightarrow> (string \<times> string) option" where
  "findStringSubmatch [] = jsonTagRegex_at []"
| "findStringSubmatch (c # s) =
     (case jsonTagRegex_at (c # s) of Some g \<Rightarrow> Some g | None \<Rightarrow> findStringSubmatch s)"

definition getJsonTag :: "string \<Rightarrow> jsonTag \<times> bool" where
  "getJsonTag structTags =
     (if \<not> containsStr structTags ''json:\"'' then (jsonTag_zero, False)
      else (case findStringSubmatch structTags of
              None \<Rightarrow> (jsonTag_zero, False)
            | Some (g1, g2) \<Rightarrow>
                (\<lparr>Name = g1, Value = g1 @ g2,
                  IsString = containsStr g2 '',string'',
                  Omitempty = containsStr g2 '',omitempty''\<rparr>, True)))"


section \<open>Host type objects (go/types)\<close>

text \<open>
  The translator reads the host type graph through \<open>go/types\<close>. A type object is a node
  \<open>'ty\<close>; the memo is keyed by the identity of the object, that is by the node. A struct
  field carries what \<open>Field(i)\<close> and \<open>Tag(i)\<close> give, an interface type the names of its
  methods.
\<close>

record 'ty field_var =
  fv_Name :: string
  fv_Exported :: bool
  fv_Embedded :: bool
  fv_Type :: 'ty
  fv_Tag :: string

text \<open>
  A \<open>*types.Named\<close>: the package path of \<open>Obj().Pkg()\<close> (\<open>None\<close> for a nil package),
  \<open>Obj().Id()\<close>, \<open>Underlying()\<close>, \<open>Obj().IsAlias()\<close>, and the verdicts of the two method-set
  probes \<open>isTextMarshaler\<close> and \<open>isJsonMarshaller\<close>, which only read the method set.
\<close>

record 'ty named_obj =
  n_PkgPath :: "string option"
  n_Id :: string
  n_Underlying :: 'ty
  n_IsAlias :: bool
  n_TextMarshaler :: bool
  n_JsonMarshaller :: bool

datatype 'ty host_type =
    TNamed "'ty named_obj"
  | TBasic string
  | TStruct "'ty field_var list"
  | TSlice 'ty
  | TArray 'ty
  | TMap 'ty 'ty
  | TPointer 'ty
  | TInterface "string list"
  | TOther

text \<open>
  \<open>schema.Type\<close> and \<open>schema.VarType\<close>. A Type record is complete before any reference to
  it exists and is not written afterwards, so a \<open>VarStructType\<close> holds it by value.
\<close>

record type_rec =
  ty_Kind :: string
  ty_Name :: string
  ty_Type :: "addr option"
  ty_Fields :: "type_field list"

record var_type =
  vt_Expr :: string
  vt_Type :: core_type
  vt_List :: "addr option"
  vt_Map :: "(core_type \<times> addr) option"
  vt_Struct :: "(string \<times> type_rec) option"

definition mkVarType :: "string \<Rightarrow> core_type \<Rightarrow> var_type" where
  "mkVarType e t = \<lparr>vt_Expr = e, vt_Type = t, vt_List = None, vt_Map = None, vt_Struct = None\<rparr>"

text \<open>
  What the translator is given and does not change: the type graph, \<open>typ.String()\<close> of every
  type object, \<open>p.schemaPkgName\<close>, the library function \<open>schema.ParseVarTypeExpr\<close> (applied to
  the schema's types and the name of a basic type), and the enum values that the loop over
  \<open>p.pkg.Syntax\<close> collects from the documentation comments.
\<close>

record 'ty env =
  typeOf :: "'ty \<Rightarrow> 'ty host_type"
  typeString :: "'ty \<Rightarrow> string"
  schemaPkgName :: string
  parseVarTypeExpr :: "type_rec list \<Rightarrow> string \<Rightarrow> var_type option"
  docEnumValues :: "type_field list"

text \<open>
  The parser: \<open>p.parsedTypes\<close> (the memo), the VarType records that pointers refer to, and
  \<open>p.schema.Types\<close>.
\<close>

record 'ty parser =
  parsedTypes :: "'ty \<rightharpoonup> addr"
  heap :: "var_type list"
  schemaTypes :: "type_rec list"

definition emptyParser :: "'ty parser" where
  "emptyParser = \<lparr>parsedTypes = Map.empty, heap = [], schemaTypes = []\<rparr>"

type_synonym 'ty result = "(failure + addr) \<times> 'ty parser"

text \<open>\<open>&schema.VarType{...}\<close>: a fresh record at the next address.\<close>

definition alloc :: "var_type \<Rightarrow> 'ty parser \<Rightarrow> 'ty result" where
  "alloc v st = (Inr (length (heap st)), st\<lparr>heap := heap st @ [v]\<rparr>)"

definition appendType :: "type_rec \<Rightarrow> 'ty parser \<Rightarrow> 'ty parser" where
  "appendType T st = st\<lparr>schemaTypes := schemaTypes st @ [T]\<rparr>"

definition underlyingOf :: "'ty env \<Rightarrow> 'ty \<Rightarrow> 'ty" where
  "underlyingOf env t = (case typeOf env t of TNamed v \<Rightarrow> n_Underlying v | _ \<Rightarrow> t)"

fun isPointer :: "'ty host_type \<Rightarrow> bool" where
  "isPointer (TPointer e) = True"
| "isPointer _ = False"

fun isInterface :: "'ty host_type \<Rightarrow> bool" where
  "isInterface (TInterface ms) = True"
| "isInterface _ = False"

fun isStruct :: "'ty host_type \<Rightarrow> bool" where
  "isStruct (TStruct fs) = True"
| "isStruct _ = False"

section \<open>goTypeName and goTypeImport\<close>

text \<open>\<open>unicode.IsLetter\<close> on the ASCII range; type strings are ASCII in this model.\<close>

definition isLetter :: "char \<Rightarrow> bool" where
  "isLetter c =
     (let n = (of_char c :: nat) in (97 \<le> n \<and> n \<le> 122) \<or> (65 \<le> n \<and> n \<le> 90))"

definition findFirstLetter :: "string \<Rightarrow> nat" where
  "findFirstLetter s =
     (if list_ex isLetter s then length (takeWhile (\<lambda>c. \<not> isLetter c) s) else 0)"

text \<open>\<open>filepath.Base\<close> with the separator \<open>/\<close>.\<close>

definition filepathBase :: "string \<Rightarrow> string" where
  "filepathBase path =
     (if path = [] then ''.''
      else (let q = dropWhile (\<lambda>c. c = CHR ''/'') (rev path) in
            if q = [] then ''/'' else rev (takeWhile (\<lambda>c. c \<noteq> CHR ''/'') q)))"

definition goTypeName :: "'ty env \<Rightarrow> 'ty \<Rightarrow> string" where
  "goTypeName env typ =
     (let name0 = typeString env typ;
          firstLetter = findFirstLetter name0;
          prefix = take firstLetter name0;
          name1 = drop firstLetter name0;
          name2 = trimPrefix name1 (schemaPkgName env @ ''.'');
          name3 = trimPrefix name2 ''command-line-arguments.'';
          name4 = filepathBase name3;
          name5 = (if name4 = ''invalid type'' then ''invalidType'' else name4)
      in prefix @ name5)"

text \<open>\<open>strings.LastIndex(name, ".")\<close>; \<open>None\<close> is \<open>-1\<close>.\<close>

definition lastIndexDot :: "string \<Rightarrow> nat option" where
  "lastIndexDot s =
     (if CHR ''.'' \<in> set s
      then Some (length s - 1 - length (takeWhile (\<lambda>c. c \<noteq> CHR ''.'') (rev s)))
      else None)"

definition goTypeImport :: "'ty env \<Rightarrow> 'ty \<Rightarrow> string" where
  "goTypeImport env typ =
     (let name0 = typeString env typ;
          name1 = drop (findFirstLetter name0) name0
      in case lastIndexDot name1 of
           None \<Rightarrow> []
         | Some lastDot \<Rightarrow>
             if lastDot = 0 then []
             else (let name2 = take lastDot name1 in
                   if name2 = schemaPkgName env \<or> name2 = ''command-line-arguments'' \<or> name2 = ''time''
                   then [] else name2))"

section \<open>The walker of types.go\<close>

text \<open>
  Every function of the walker that calls \<open>p.parseNamedType\<close> takes that call as its
  argument \<open>rec\<close>; \<open>parseNamedType\<close> below passes itself. \<open>VarType.String()\<close> of the schema
  library is the \<open>Expr\<close> of the record.
\<close>

definition parseBasic :: "'ty env \<Rightarrow> string \<Rightarrow> 'ty parser \<Rightarrow> 'ty result" where
  "parseBasic env name st =
     (case parseVarTypeExpr env (schemaTypes st) name of
        None \<Rightarrow> (Inl (Err (ErrWrap ''failed to parse basic type'' (ErrBasic name))), st)
      | Some vt \<Rightarrow> alloc vt st)"

definition parseAny :: "string \<Rightarrow> 'ty parser \<Rightarrow> 'ty result" where
  "parseAny typeName st = alloc (mkVarType ''any'' T_Any) st"

definition parseSlice :: "(string \<Rightarrow> 'ty \<Rightarrow> 'ty parser \<Rightarrow> 'ty result) \<Rightarrow> string \<Rightarrow> 'ty \<Rightarrow> 'ty parser \<Rightarrow> 'ty result" where
  "parseSlice rec typeName elemT st =
     (case rec typeName elemT st of
        (Inl e, st1) \<Rightarrow> (Inl (wrap ''failed to parse slice type'' e), st1)
      | (Inr elem, st1) \<Rightarrow>
          alloc ((mkVarType (''[]'' @ vt_Expr (heap st1 ! elem)) T_List)\<lparr>vt_List := Some elem\<rparr>) st1)"

definition parseMap :: "(string \<Rightarrow> 'ty \<Rightarrow> 'ty parser \<Rightarrow> 'ty result) \<Rightarrow> string \<Rightarrow> 'ty \<Rightarrow> 'ty \<Rightarrow> 'ty parser \<Rightarrow> 'ty result" where
  "parseMap rec typeName keyT elemT st =
     (case rec typeName keyT st of
        (Inl e, st1) \<Rightarrow> (Inl (wrap ''failed to parse map key type'' e), st1)
      | (Inr key, st1) \<Rightarrow>
          (case rec typeName elemT st1 of
             (Inl e, st2) \<Rightarrow> (Inl (wrap ''failed to parse map value type'' e), st2)
           | (Inr val, st2) \<Rightarrow>
               alloc ((mkVarType (''map<'' @ vt_Expr (heap st2 ! key) @ '','' @ vt_Expr (heap st2 ! val) @ ''>'') T_Map)
                        \<lparr>vt_Map := Some (vt_Type (heap st2 ! key), val)\<rparr>) st2))"

definition fieldMeta :: "string \<Rightarrow> string \<Rightarrow> string \<Rightarrow> (string \<times> string) list" where
  "fieldMeta goFieldName goFieldType goFieldImport =
     [(''go.field.name'', goFieldName), (''go.field.type'', goFieldType)]
     @ (if goFieldImport \<noteq> [] then [(''go.type.import'', goFieldImport)] else [])"

definition parseStructField ::
  "'ty env \<Rightarrow> (string \<Rightarrow> 'ty \<Rightarrow> 'ty parser \<Rightarrow> 'ty result) \<Rightarrow> string \<Rightarrow> 'ty field_var \<Rightarrow> 'ty parser
     \<Rightarrow> (failure + type_field option) \<times> 'ty parser" where
  "parseStructField env rec structTypeName field st =
     (let fieldName = fv_Name field;
          fieldType = fv_Type field;
          goFieldType = goTypeName env fieldType;
          goFieldImport = goTypeImport env fieldType;
          (jsonTag, ok) = getJsonTag (fv_Tag field)
      in if ok \<and> Name jsonTag = ''-'' then (Inr None, st)
         else
          (let jsonFieldName = (if ok \<and> Name jsonTag \<noteq> [] then Name jsonTag else fieldName);
               optional0 = (ok \<and> Omitempty jsonTag)
           in if ok \<and> IsString jsonTag then
                (case alloc (mkVarType ''string'' T_String) st of
                   (Inl e, st1) \<Rightarrow> (Inl e, st1)
                 | (Inr a, st1) \<Rightarrow>
                     (Inr (Some \<lparr>tf_Name = jsonFieldName, tf_Type = Some a, tf_Value = [],
                                 tf_Optional = optional0,
                                 tf_Meta = fieldMeta fieldName goFieldType goFieldImport
                                           @ [(''go.tag.json'', Value jsonTag)]\<rparr>), st1))
              else
                (let u = typeOf env (underlyingOf env fieldType);
                     optional = (optional0 \<or> isPointer u);
                     structTypeName' = (if isStruct u then structTypeName @ ''Anonymous'' @ fieldName
                                        else structTypeName)
                 in case rec structTypeName' fieldType st of
                      (Inl e, st1) \<Rightarrow> (Inl (wrap ''failed to parse var'' e), st1)
                    | (Inr a, st1) \<Rightarrow>
                        (Inr (Some \<lparr>tf_Name = jsonFieldName, tf_Type = Some a, tf_Value = [],
                                    tf_Optional = optional,
                                    tf_Meta = fieldMeta fieldName goFieldType goFieldImport
                                              @ (if Value jsonTag \<noteq> [] then [(''go.tag.json'', Value jsonTag)] else [])\<rparr>),
                         st1))))"

text \<open>The inner loop of \<open>parseStruct\<close> over the fields of a promoted struct.\<close>

fun appendAll :: "type_field list \<Rightarrow> type_field list \<Rightarrow> failure + type_field list" where
  "appendAll acc [] = Inr acc"
| "appendAll acc (e # es) =
     (case appendOrOverrideExistingField acc e of
        Inl x \<Rightarrow> Inl x
      | Inr acc' \<Rightarrow> appendAll acc' es)"

text \<open>
  The loop of \<open>parseStruct\<close> over the fields, with \<open>structType.Fields\<close> as \<open>acc\<close>. Reading
  \<open>varType.Struct.Type\<close> of a record whose \<open>Struct\<close> is nil panics.
\<close>

fun parseStruct_fields ::
  "'ty env \<Rightarrow> (string \<Rightarrow> 'ty \<Rightarrow> 'ty parser \<Rightarrow> 'ty result) \<Rightarrow> string \<Rightarrow> 'ty field_var list
     \<Rightarrow> type_field list \<Rightarrow> 'ty parser \<Rightarrow> (failure + type_field list) \<times> 'ty parser" where
  "parseStruct_fields env rec typeName [] acc st = (Inr acc, st)"
| "parseStruct_fields env rec typeName (f # fs) acc st =
     (if \<not> fv_Exported f then parseStruct_fields env rec typeName fs acc st
      else if fv_Embedded f \<or> containsStr (fv_Tag f) ''json:\",inline\"'' then
        (case rec [] (fv_Type f) st of
           (Inl e, st1) \<Rightarrow> (Inl (wrap ''parsing var'' e), st1)
         | (Inr a, st1) \<Rightarrow>
             if vt_Type (heap st1 ! a) = T_Struct then
               (case vt_Struct (heap st1 ! a) of
                  None \<Rightarrow> (Inl Panic, st1)
                | Some (nm, T) \<Rightarrow>
                    (case appendAll acc (ty_Fields T) of
                       Inl x \<Rightarrow> (Inl x, st1)
                     | Inr acc' \<Rightarrow> parseStruct_fields env rec typeName fs acc' st1))
             else parseStruct_fields env rec typeName fs acc st1)
      else
        (case parseStructField env rec typeName f st of
           (Inl e, st1) \<Rightarrow> (Inl (wrap ''parsing struct field'' e), st1)
         | (Inr None, st1) \<Rightarrow> parseStruct_fields env rec typeName fs acc st1
         | (Inr (Some field), st1) \<Rightarrow>
             (case appendOrOverrideExistingField acc field of
                Inl x \<Rightarrow> (Inl x, st1)
              | Inr acc' \<Rightarrow> parseStruct_fields env rec typeName fs acc' st1)))"

definition structVarType :: "string \<Rightarrow> type_rec \<Rightarrow> var_type" where
  "structVarType name T = (mkVarType name T_Struct)\<lparr>vt_Struct := Some (name, T)\<rparr>"

definition parseStruct ::
  "'ty env \<Rightarrow> (string \<Rightarrow> 'ty \<Rightarrow> 'ty parser \<Rightarrow> 'ty result) \<Rightarrow> string \<Rightarrow> 'ty field_var list \<Rightarrow> 'ty parser \<Rightarrow> 'ty result" where
  "parseStruct env rec typeName structFields st =
     (case parseStruct_fields env rec typeName structFields [] st of
        (Inl e, st1) \<Rightarrow> (Inl e, st1)
      | (Inr fs, st1) \<Rightarrow>
          (let structType = \<lparr>ty_Kind = ''struct'', ty_Name = typeName, ty_Type = None, ty_Fields = fs\<rparr>
           in alloc (structVarType typeName structType) (appendType structType st1)))"

text \<open>The branch of a named slice or array with element type \<open>elemT\<close>.\<close>

definition parseNamedList ::
  "'ty env \<Rightarrow> (string \<Rightarrow> 'ty \<Rightarrow> 'ty parser \<Rightarrow> 'ty result) \<Rightarrow> 'ty named_obj \<Rightarrow> 'ty \<Rightarrow> 'ty parser \<Rightarrow> 'ty result" where
  "parseNamedList env rec v elemT st =
     (let underlying = n_Underlying v in
      if n_JsonMarshaller v then
        (case alloc (mkVarType ''any'' T_Any) st of
           (Inl e, st1) \<Rightarrow> (Inl e, st1)
         | (Inr a, st1) \<Rightarrow> alloc ((mkVarType ''[]any'' T_List)\<lparr>vt_List := Some a\<rparr>) st1)
      else
        (case typeOf env (underlyingOf env elemT) of
           TBasic b \<Rightarrow>
             (case parseBasic env b st of
                (Inl e, st1) \<Rightarrow> (Inl (wrap ''failed to parse []namedBasicType'' e), st1)
              | (Inr basicType, st1) \<Rightarrow>
                  alloc ((mkVarType (''[]'' @ vt_Expr (heap st1 ! basicType)) T_List)
                           \<lparr>vt_List := Some basicType\<rparr>) st1)
         | _ \<Rightarrow> rec (goTypeName env underlying) (underlyingOf env underlying) st))"

definition isEnumName :: "string \<Rightarrow> bool" where
  "isEnumName typeName = (hasPrefix typeName ''Enum['' \<and> hasSuffix typeName '']'')"

definition parseNamed ::
  "'ty env \<Rightarrow> (string \<Rightarrow> 'ty \<Rightarrow> 'ty parser \<Rightarrow> 'ty result) \<Rightarrow> 'ty \<Rightarrow> 'ty named_obj \<Rightarrow> 'ty parser \<Rightarrow> 'ty result" where
  "parseNamed env rec typ v st =
     (let underlying = n_Underlying v;
          typeName = goTypeName env typ
      in if n_PkgPath v = Some ''time'' \<and> typeName = ''Time'' then
           alloc (mkVarType ''timestamp'' T_Timestamp) st
         else if n_PkgPath v = Some ''github.com/golang-cz/gospeak'' \<and> isEnumName typeName then
           (let name = n_Id v in
            case rec (goTypeName env underlying) underlying st of
              (Inl e, st1) \<Rightarrow> (Inl (wrap ''parsing gospeak.Enum underlying type'' e), st1)
            | (Inr enumElemType, st1) \<Rightarrow>
                (let enumType = \<lparr>ty_Kind = ''enum'', ty_Name = name, ty_Type = Some enumElemType,
                                 ty_Fields = docEnumValues env\<rparr>
                 in alloc (structVarType name enumType) (appendType enumType st1)))
         else if n_TextMarshaler v then
           alloc (mkVarType ''string'' T_String) st
         else
           (case typeOf env underlying of
              TPointer e \<Rightarrow> rec (goTypeName env underlying) (underlyingOf env underlying) st
            | TSlice e \<Rightarrow> parseNamedList env rec v e st
            | TArray e \<Rightarrow> parseNamedList env rec v e st
            | _ \<Rightarrow>
                if n_JsonMarshaller v then alloc (mkVarType ''any'' T_Any) st
                else rec typeName underlying st))"

text \<open>The type switch of \<open>parseNamedType\<close>, after the memo has been claimed.\<close>

definition parseNamedType_switch ::
  "'ty env \<Rightarrow> (string \<Rightarrow> 'ty \<Rightarrow> 'ty parser \<Rightarrow> 'ty result) \<Rightarrow> string \<Rightarrow> 'ty \<Rightarrow> 'ty parser \<Rightarrow> 'ty result" where
  "parseNamedType_switch env rec typeName typ st =
     (case typeOf env typ of
        TNamed v \<Rightarrow> parseNamed env rec typ v st
      | TBasic b \<Rightarrow> parseBasic env b st
      | TStruct fs \<Rightarrow> parseStruct env rec typeName fs st
      | TSlice e \<Rightarrow> parseSlice rec typeName e st
      | TInterface ms \<Rightarrow> parseAny typeName st
      | TMap k e \<Rightarrow> parseMap rec typeName k e st
      | TPointer e \<Rightarrow>
          if typeName = [] then rec (goTypeName env typ) e st else rec typeName e st
      | TArray e \<Rightarrow> (Inl (Err ErrUnsupported), st)
      | TOther \<Rightarrow> (Inl (Err ErrUnsupported), st))"

text \<open>
  The memo claim: the placeholder \<open>cacheDoNotReturn\<close> is allocated and stored under the
  type before the switch runs.
\<close>

definition claim :: "string \<Rightarrow> 'ty \<Rightarrow> 'ty parser \<Rightarrow> 'ty parser" where
  "claim typeName typ st =
     st\<lparr>parsedTypes := (parsedTypes st)(typ \<mapsto> length (heap st)),
        heap := heap st @ [mkVarType typeName T_Invalid]\<rparr>"

text \<open>The deferred function: \<open>*cacheDoNotReturn = *varType\<close>.\<close>

definition backfill :: "addr \<Rightarrow> addr \<Rightarrow> 'ty parser \<Rightarrow> 'ty parser" where
  "backfill c v st = st\<lparr>heap := (heap st)[c := heap st ! v]\<rparr>"

text \<open>
  \<open>parseNamedType\<close>, with the depth of the recursion bounded by the first argument; at
  depth \<open>0\<close> the model gives \<open>OutOfFuel\<close>.
\<close>

primrec parseNamedType :: "'ty env \<Rightarrow> nat \<Rightarrow> string \<Rightarrow> 'ty \<Rightarrow> 'ty parser \<Rightarrow> 'ty result" where
  "parseNamedType env 0 = (\<lambda>typeName typ st. (Inl OutOfFuel, st))"
| "parseNamedType env (Suc n) = (\<lambda>typeName typ st.
     (case parsedTypes st typ of
        Some parsedType \<Rightarrow> (Inr parsedType, st)
      | None \<Rightarrow>
          (let cacheDoNotReturn = length (heap st) in
           case parseNamedType_switch env (parseNamedType env n) typeName typ (claim typeName typ st) of
             (Inl e, st1) \<Rightarrow> (Inl e, st1)
           | (Inr varType, st1) \<Rightarrow> (Inr cacheDoNotReturn, backfill cacheDoNotReturn varType st1))))"

definition parseType :: "'ty env \<Rightarrow> nat \<Rightarrow> 'ty \<Rightarrow> 'ty parser \<Rightarrow> 'ty result" where
  "parseType env n typ st = parseNamedType env n [] typ st"


section \<open>The walker of internal/parser\<close>

text \<open>
  \<open>parseStructField\<close> of the package \<open>internal/parser\<close> receives the parsed tag. The type
  \<open>JsonTag\<close> and the methods \<open>GoTypeName\<close>, \<open>GoTypeImport\<close> and \<open>ParseNamedType\<close> with a
  string parent are declared outside the given sources and are arguments here. The local
  \<open>structTypeName\<close> is assigned and not read again.
\<close>

record JsonTag =
  jt_Name :: string
  jt_Value :: string
  jt_IsString :: bool
  jt_Omitempty :: bool
  jt_Inline :: bool

fun isAliasNamed :: "'ty host_type \<Rightarrow> bool" where
  "isAliasNamed (TNamed v) = n_IsAlias v"
| "isAliasNamed _ = False"

definition Parser_parseStructField ::
  "'ty env \<Rightarrow> ('ty \<Rightarrow> string) \<Rightarrow> ('ty \<Rightarrow> string) \<Rightarrow> (string \<Rightarrow> 'ty \<Rightarrow> 'ty parser \<Rightarrow> 'ty result)
     \<Rightarrow> string \<Rightarrow> 'ty field_var \<Rightarrow> JsonTag \<Rightarrow> 'ty parser \<Rightarrow> (failure + type_field option) \<times> 'ty parser" where
  "Parser_parseStructField env GoTypeName GoTypeImport rec structTypeName field jsonTag st =
     (let fieldName = fv_Name field;
          fieldType = fv_Type field;
          goFieldType0 = GoTypeName fieldType;
          goFieldImport = GoTypeImport fieldType
      in if jt_Name jsonTag \<noteq> [] \<and> jt_Name jsonTag = ''-'' then (Inr None, st)
         else
          (let jsonFieldName = (if jt_Name jsonTag \<noteq> [] then jt_Name jsonTag else fieldName);
               optional0 = jt_Omitempty jsonTag;
               goFieldType1 = (if jt_Omitempty jsonTag then ''*'' @ goFieldType0 else goFieldType0)
           in if jt_IsString jsonTag then
                (case alloc (mkVarType ''string'' T_String) st of
                   (Inl e, st1) \<Rightarrow> (Inl e, st1)
                 | (Inr a, st1) \<Rightarrow>
                     (Inr (Some \<lparr>tf_Name = jsonFieldName, tf_Type = Some a, tf_Value = [],
                                 tf_Optional = optional0,
                                 tf_Meta = fieldMeta fieldName goFieldType1 goFieldImport
                                           @ [(''go.tag.json'', jt_Value jsonTag)]\<rparr>), st1))
              else
                (let u = typeOf env (underlyingOf env fieldType);
                     optional = (optional0 \<or> isPointer u);
                     goFieldType = (if isPointer u then ''*'' @ goFieldType1 else goFieldType1)
                 in if isAliasNamed (typeOf env fieldType) then (Inl Panic, st)
                    else if isAliasNamed u then (Inl Panic, st)
                    else
                      (case rec goFieldType fieldType st of
                         (Inl e, st1) \<Rightarrow> (Inl (wrap ''failed to parse var'' e), st1)
                       | (Inr a, st1) \<Rightarrow>
                           (Inr (Some \<lparr>tf_Name = jsonFieldName, tf_Type = Some a, tf_Value = [],
                                       tf_Optional = optional,
                                       tf_Meta = fieldMeta fieldName goFieldType goFieldImport
                                                 @ (if jt_Value jsonTag \<noteq> [] then [(''go.tag.json'', jt_Value jsonTag)] else [])\<rparr>),
                            st1)))))"






section \<open>Predicates on parser states\<close>

text \<open>
  A predicate on states is \<open>closed\<close> under a callback when allocation, appending a Type
  and the callback keep it; it is \<open>stable\<close> when the memo claim and the deferred copy keep
  it as well. \<open>ext s s'\<close>: the memo of \<open>s\<close> is kept, the Types of \<open>s\<close> are a prefix and no
  record has been freed. \<open>total_on Q rec\<close>: the callback does not run out of fuel on \<open>Q\<close>.
\<close>

definition closed :: "('ty parser \<Rightarrow> bool) \<Rightarrow> (string \<Rightarrow> 'ty \<Rightarrow> 'ty parser \<Rightarrow> 'ty result) \<Rightarrow> bool" where
  "closed P rec \<longleftrightarrow>
     (\<forall>v st. P st \<longrightarrow> P (st\<lparr>heap := heap st @ [v]\<rparr>)) \<and>
     (\<forall>T st. P st \<longrightarrow> P (appendType T st)) \<and>
     (\<forall>tn t st r st1. P st \<longrightarrow> rec tn t st = (r, st1) \<longrightarrow> P st1)"

definition stable :: "('ty parser \<Rightarrow> bool) \<Rightarrow> bool" where
  "stable P \<longleftrightarrow>
     (\<forall>v st. P st \<longrightarrow> P (st\<lparr>heap := heap st @ [v]\<rparr>)) \<and>
     (\<forall>T st. P st \<longrightarrow> P (appendType T st)) \<and>
     (\<forall>tn typ st. P st \<longrightarrow> parsedTypes st typ = None \<longrightarrow> P (claim tn typ st)) \<and>
     (\<forall>c v st. P st \<longrightarrow> P (backfill c v st))"

definition ext :: "'ty parser \<Rightarrow> 'ty parser \<Rightarrow> bool" where
  "ext s s' \<longleftrightarrow>
     (\<forall>t a. parsedTypes s t = Some a \<longrightarrow> parsedTypes s' t = Some a) \<and>
     (\<exists>zs. schemaTypes s' = schemaTypes s @ zs) \<and>
     length (heap s) \<le> length (heap s')"



definition anyVarType :: var_type where
  "anyVarType = mkVarType ''any'' T_Any"

text \<open>
  Every memo entry is an allocated record and no two types share one; the record of an
  interface type in the memo is \<open>any\<close>.
\<close>

definition memo_wf :: "'ty parser \<Rightarrow> bool" where
  "memo_wf st \<longleftrightarrow>
     (\<forall>t a. parsedTypes st t = Some a \<longrightarrow> a < length (heap st)) \<and>
     (\<forall>t t' a. parsedTypes st t = Some a \<longrightarrow> parsedTypes st t' = Some a \<longrightarrow> t = t')"

definition any_inv :: "'ty env \<Rightarrow> 'ty parser \<Rightarrow> bool" where
  "any_inv env st \<longleftrightarrow>
     memo_wf st \<and>
     (\<forall>t a. isInterface (typeOf env t) \<longrightarrow> parsedTypes st t = Some a \<longrightarrow> heap st ! a = anyVarType)"

text \<open>The parser states of one parse: the empty parser, and the state after any call.\<close>

inductive reachable :: "'ty env \<Rightarrow> 'ty parser \<Rightarrow> bool" for env :: "'ty env" where
  reachable_empty: "reachable env emptyParser"
| reachable_call: "reachable env st \<Longrightarrow> reachable env (snd (parseNamedType env n typeName typ st))"

section \<open>Example inputs\<close>

text \<open>
  Modelled from the spec: the result of \<open>schema.ParseVarTypeExpr\<close> on the name of a basic
  type, which belongs to the schema library; section 4.7 says that each primitive host type
  maps to a canonical expression and that unknown primitives fail.
\<close>

definition basicTypeMapper :: "type_rec list \<Rightarrow> string \<Rightarrow> var_type option" where
  "basicTypeMapper types name =
     map_option (mkVarType name)
       (map_of [(''bool'', T_Bool), (''byte'', T_Byte), (''string'', T_String),
                (''uint'', T_Uint), (''uint8'', T_Uint8), (''uint16'', T_Uint16),
                (''uint32'', T_Uint32), (''uint64'', T_Uint64),
                (''int'', T_Int), (''int8'', T_Int8), (''int16'', T_Int16),
                (''int32'', T_Int32), (''int64'', T_Int64),
                (''float32'', T_Float32), (''float64'', T_Float64)] name)"

definition mkField :: "string \<Rightarrow> 'ty \<Rightarrow> string \<Rightarrow> 'ty field_var" where
  "mkField name t tag = \<lparr>fv_Name = name, fv_Exported = True, fv_Embedded = False, fv_Type = t, fv_Tag = tag\<rparr>"

definition mkNamed :: "string \<Rightarrow> string \<Rightarrow> 'ty \<Rightarrow> 'ty named_obj" where
  "mkNamed pkg name u = \<lparr>n_PkgPath = Some pkg, n_Id = name, n_Underlying = u, n_IsAlias = False,
                         n_TextMarshaler = False, n_JsonMarshaller = False\<rparr>"

text \<open>
  Type objects \<open>0\<close> to \<open>10\<close>: \<open>map[struct{}]interface{}\<close> with its key and value,
  \<open>struct{A struct{}; B chan int}\<close> with \<open>chan int\<close>, \<open>int64\<close>, \<open>string\<close>, the sentinel
  \<open>gospeak.Enum[int]\<close> with \<open>int\<close>, in a schema whose package is gospeak itself, and the
  structs \<open>Base\<close> and \<open>Child\<close>, where \<open>Child\<close> declares \<open>Kind\<close> and then embeds \<open>Base\<close>;
  type object \<open>11\<close> is an interface with one method.
\<close>

definition exTypes :: "(nat host_type \<times> string) list" where
  "exTypes =
     [(TMap 1 2, ''map[struct{}]interface {}''),
      (TStruct [], ''struct{}''),
      (TInterface [], ''interface {}''),
      (TStruct [mkField ''A'' 1 [], mkField ''B'' 4 []], ''struct{A struct{}; B chan int}''),
      (TOther, ''chan int''),
      (TBasic ''int64'', ''int64''),
      (TBasic ''string'', ''string''),
      (TNamed (mkNamed ''github.com/golang-cz/gospeak'' ''Enum'' 8), ''github.com/golang-cz/gospeak.Enum[int]''),
      (TBasic ''int'', ''int''),
      (TStruct [mkField ''ID'' 5 [], mkField ''Kind'' 6 []], ''struct{ID int64; Kind string}''),
      (TStruct [mkField ''Kind'' 5 [], (mkField ''Base'' 9 [])\<lparr>fv_Embedded := True\<rparr>],
       ''struct{Kind int64; Base}''),
      (TInterface [''Error''], ''interface{Error() string}'')]"

definition exEnv :: "nat env" where
  "exEnv = \<lparr>typeOf = (\<lambda>t. if t < length exTypes then fst (exTypes ! t) else TOther),
            typeString = (\<lambda>t. if t < length exTypes then snd (exTypes ! t) else []),
            schemaPkgName = ''github.com/golang-cz/gospeak'',
            parseVarTypeExpr = basicTypeMapper,
            docEnumValues = [\<lparr>tf_Name = ''approved'', tf_Type = None, tf_Value = ''0'',
                              tf_Optional = False, tf_Meta = []\<rparr>]\<rparr>"



definition exID :: "nat field_var" where
  "exID = mkField ''ID'' 5 ''json:\"id,string\"''"

definition exEmail :: "nat field_var" where
  "exEmail = mkField ''Email'' 6 ''json:\"email,omitempty\"''"

definition exIDTag :: JsonTag where
  "exIDTag = \<lparr>jt_Name = ''id'', jt_Value = ''id,string'', jt_IsString = True,
              jt_Omitempty = False, jt_Inline = False\<rparr>"

definition exEmailTag :: JsonTag where
  "exEmailTag = \<lparr>jt_Name = ''email'', jt_Value = ''email,omitempty'', jt_IsString = False,
                 jt_Omitempty = True, jt_Inline = False\<rparr>"

definition exField :: "string \<Rightarrow> type_field" where
  "exField name = \<lparr>tf_Name = name, tf_Type = None, tf_Value = [], tf_Optional = False, tf_Meta = []\<rparr>"

text \<open>
  The recursive struct \<open>type Node struct { Next *Node }\<close>: the named type, its struct and
  the pointer type of the field are the three type objects.
\<close>

datatype node = NodeNamed | NodeStruct | NodePointer

instantiation node :: finite
begin
instance
proof
  have u: "(UNIV :: node set) = {NodeNamed, NodeStruct, NodePointer}"
    using node.exhaust by auto
  have "finite {NodeNamed, NodeStruct, NodePointer}" by simp
  then show "finite (UNIV :: node set)" unfolding u .
qed
end


section \<open>The override loop\<close>

lemma aoe_loop_nomatch:
  "\<forall>k\<in>set is. tf_Name (b ! k) \<noteq> nm \<Longrightarrow> aoe_loop nm is (b, m) = Inr (b, m)"
  by (induction "is") auto

lemma aoe_loop_append:
  "aoe_loop nm (is @ js) s =
     (case aoe_loop nm is s of Inl e \<Rightarrow> Inl e | Inr s' \<Rightarrow> aoe_loop nm js s')"
proof (induction "is" arbitrary: s)
  case Nil
  then show ?case by (cases s) simp
next
  case (Cons i "is")
  then show ?case by (cases s) simp
qed

lemma aoe_absent:
  assumes "nm \<notin> tf_Name ` set slice"
  shows "aoe_loop nm [0 ..< length slice] (slice, length slice) = Inr (slice, length slice)"
  by (rule aoe_loop_nomatch) (use assms in auto)

lemma aoe_present:
  assumes nx: "nm \<notin> tf_Name ` set xs" and ny: "nm \<notin> tf_Name ` set ys" and f: "tf_Name f = nm"
  shows "\<exists>b. aoe_loop nm [0 ..< length (xs @ f # ys)] (xs @ f # ys, length (xs @ f # ys)) = Inr (b, length xs + length ys)
     \<and> take (length xs + length ys) b = xs @ ys"
proof -
  let ?s = "xs @ f # ys"
  let ?j = "length xs"
  let ?n = "length ?s"
  have split: "[0 ..< ?n] = [0 ..< ?j] @ ?j # [Suc ?j ..< ?n]"
  proof -
    have "[0 ..< ?n] = [0 ..< ?j] @ [?j ..< ?n]"
      using upt_add_eq_append[of 0 ?j "Suc (length ys)"] by (simp del: upt_Suc)
    moreover have "[?j ..< ?n] = ?j # [Suc ?j ..< ?n]"
      by (rule upt_conv_Cons) simp
    ultimately show ?thesis by simp
  qed
  have p1: "aoe_loop nm [0 ..< ?j] (?s, ?n) = Inr (?s, ?n)"
    by (rule aoe_loop_nomatch) (use nx in \<open>auto simp: nth_append\<close>)
  let ?b = "xs @ ys @ [last (f # ys)]"
  have cp: "take ?j ?s @ drop (?j + 1) (take ?n ?s) @ drop (?n - 1) ?s = ?b"
    by (cases ys rule: rev_cases) auto
  have p3: "aoe_loop nm [Suc ?j ..< ?n] (?b, ?n - 1) = Inr (?b, ?n - 1)"
  proof (rule aoe_loop_nomatch, rule ballI)
    fix k assume "k \<in> set [Suc ?j ..< ?n]"
    then have k: "Suc ?j \<le> k" "k < Suc (?j + length ys)" by auto
    then have "ys \<noteq> []" by auto
    have "?b ! k \<in> set ys"
    proof (cases "k < ?j + length ys")
      case True
      then have "?b ! k = ys ! (k - ?j)" using k by (simp add: nth_append)
      then show ?thesis using True k by auto
    next
      case False
      then have "k = ?j + length ys" using k by simp
      then have "?b ! k = last (f # ys)" by (simp add: nth_append)
      then show ?thesis using \<open>ys \<noteq> []\<close> by simp
    qed
    then show "tf_Name (?b ! k) \<noteq> nm" using ny by auto
  qed
  have "aoe_loop nm [0 ..< ?n] (?s, ?n) = Inr (?b, ?n - 1)"
    unfolding split aoe_loop_append p1 using f cp p3 by simp
  then show ?thesis by auto
qed

lemma aoe_unique:
  assumes d: "distinct (map tf_Name slice)"
  shows "appendOrOverrideExistingField slice newItem =
           Inr (filter (\<lambda>f. tf_Name f \<noteq> tf_Name newItem) slice @ [newItem])
         \<and> distinct (map tf_Name (filter (\<lambda>f. tf_Name f \<noteq> tf_Name newItem) slice @ [newItem]))"
proof -
  let ?nm = "tf_Name newItem"
  have dist: "distinct (map tf_Name (filter (\<lambda>f. tf_Name f \<noteq> ?nm) slice @ [newItem]))"
    using d by (auto simp: distinct_map_filter)
  have "appendOrOverrideExistingField slice newItem =
          Inr (filter (\<lambda>f. tf_Name f \<noteq> ?nm) slice @ [newItem])"
  proof (cases "?nm \<in> tf_Name ` set slice")
    case False
    have "filter (\<lambda>f. tf_Name f \<noteq> ?nm) slice = slice"
      by (rule filter_True) (use False in \<open>metis imageI\<close>)
    then show ?thesis
      using aoe_absent[OF False] by (simp add: appendOrOverrideExistingField_def)
  next
    case True
    then obtain f where "f \<in> set slice" and f: "tf_Name f = ?nm" by auto
    then obtain xs ys where s: "slice = xs @ f # ys" by (auto dest: split_list)
    have nx: "?nm \<notin> tf_Name ` set xs" and ny: "?nm \<notin> tf_Name ` set ys"
      using d f unfolding s by auto
    have "filter (\<lambda>f. tf_Name f \<noteq> ?nm) xs = xs" "filter (\<lambda>f. tf_Name f \<noteq> ?nm) ys = ys"
      by (rule filter_True, use nx in \<open>metis imageI\<close>) (rule filter_True, use ny in \<open>metis imageI\<close>)
    then have fl: "filter (\<lambda>f. tf_Name f \<noteq> ?nm) slice = xs @ ys"
      using f unfolding s by simp
    from aoe_present[OF nx ny f] obtain b where
      "aoe_loop ?nm [0 ..< length slice] (slice, length slice) = Inr (b, length xs + length ys)"
      "take (length xs + length ys) b = xs @ ys"
      unfolding s by blast
    then show ?thesis
      by (simp add: appendOrOverrideExistingField_def fl)
  qed
  with dist show ?thesis by simp
qed

section \<open>What the helper functions keep\<close>

lemma closed_alloc: "closed P rec \<Longrightarrow> P st \<Longrightarrow> alloc v st = (r, st1) \<Longrightarrow> P st1"
  by (auto simp: closed_def alloc_def)

lemma closed_appendType: "closed P rec \<Longrightarrow> P st \<Longrightarrow> P (appendType T st)"
  by (auto simp: closed_def)

lemma closed_rec: "closed P rec \<Longrightarrow> P st \<Longrightarrow> rec tn t st = (r, st1) \<Longrightarrow> P st1"
  unfolding closed_def by blast

lemma parseBasic_pres: "closed P rec \<Longrightarrow> P st \<Longrightarrow> parseBasic env b st = (r, st1) \<Longrightarrow> P st1"
  by (auto simp: parseBasic_def split: option.splits dest: closed_alloc)

lemma parseAny_pres: "closed P rec \<Longrightarrow> P st \<Longrightarrow> parseAny tn st = (r, st1) \<Longrightarrow> P st1"
  by (auto simp: parseAny_def dest: closed_alloc)

lemma parseSlice_pres:
  assumes c: "closed P rec" and p: "P st" and e: "parseSlice rec tn t st = (r, st')"
  shows "P st'"
proof -
  obtain r1 st1 where r1: "rec tn t st = (r1, st1)" by (cases "rec tn t st")
  have p1: "P st1" using closed_rec[OF c p r1] .
  show ?thesis
    using e r1 p1 closed_alloc[OF c p1]
    by (cases r1) (auto simp: parseSlice_def)
qed

lemma parseMap_pres:
  assumes c: "closed P rec" and p: "P st" and e: "parseMap rec tn k t st = (r, st')"
  shows "P st'"
proof -
  obtain r1 st1 where r1: "rec tn k st = (r1, st1)" by (cases "rec tn k st")
  have p1: "P st1" using closed_rec[OF c p r1] .
  obtain r2 st2 where r2: "rec tn t st1 = (r2, st2)" by (cases "rec tn t st1")
  have p2: "P st2" using closed_rec[OF c p1 r2] .
  show ?thesis
    using e r1 r2 p1 p2 closed_alloc[OF c p2]
    by (cases r1; cases r2) (auto simp: parseMap_def)
qed

lemma parseStructField_pres:
  assumes c: "closed P rec" and p: "P st" and e: "parseStructField env rec tn f st = (r, st')"
  shows "P st'"
proof -
  obtain jt ok where g: "getJsonTag (fv_Tag f) = (jt, ok)" by (cases "getJsonTag (fv_Tag f)")
  show ?thesis
    using e p closed_alloc[OF c p] closed_rec[OF c p]
    by (auto simp: parseStructField_def Let_def g split: if_splits prod.splits sum.splits)
qed

lemma parseStruct_fields_pres:
  assumes c: "closed P rec"
  shows "P st \<Longrightarrow> parseStruct_fields env rec tn fs acc st = (r, st') \<Longrightarrow> P st'"
proof (induction fs arbitrary: acc st)
  case Nil
  then show ?case by simp
next
  case (Cons f fs)
  show ?case
  proof (cases "\<not> fv_Exported f")
    case True
    then show ?thesis using Cons by simp
  next
    case ex: False
    show ?thesis
    proof (cases "fv_Embedded f \<or> containsStr (fv_Tag f) ''json:\",inline\"''")
      case True
      obtain r1 st1 where r1: "rec [] (fv_Type f) st = (r1, st1)" by (cases "rec [] (fv_Type f) st")
      have p1: "P st1" using closed_rec[OF c Cons.prems(1) r1] .
      show ?thesis
        using Cons.prems(2) ex True r1 p1 Cons.IH[OF p1]
        by (cases r1) (auto split: if_splits option.splits sum.splits)
    next
      case False
      obtain r1 st1 where r1: "parseStructField env rec tn f st = (r1, st1)"
        by (cases "parseStructField env rec tn f st")
      have p1: "P st1" using parseStructField_pres[OF c Cons.prems(1) r1] .
      show ?thesis
        using Cons.prems(2) ex False r1 p1 Cons.IH[OF p1]
        by (cases r1) (auto split: if_splits option.splits sum.splits)
    qed
  qed
qed

lemma parseStruct_pres:
  assumes c: "closed P rec" and p: "P st" and e: "parseStruct env rec tn fs st = (r, st')"
  shows "P st'"
proof -
  obtain r1 st1 where r1: "parseStruct_fields env rec tn fs [] st = (r1, st1)"
    by (cases "parseStruct_fields env rec tn fs [] st")
  have p1: "P st1" using parseStruct_fields_pres[OF c p r1] .
  show ?thesis
    using e r1 p1 closed_alloc[OF c closed_appendType[OF c p1]]
    by (cases r1) (auto simp: parseStruct_def Let_def)
qed

lemma parseNamedList_pres:
  assumes c: "closed P rec" and p: "P st" and e: "parseNamedList env rec v t st = (r, st')"
  shows "P st'"
proof (cases "n_JsonMarshaller v")
  case True
  obtain r1 st1 where r1: "alloc (mkVarType ''any'' T_Any) st = (r1, st1)" by (simp add: alloc_def)
  have p1: "P st1" using closed_alloc[OF c p r1] .
  show ?thesis using e True r1 p1 closed_alloc[OF c p1]
    by (cases r1) (auto simp: parseNamedList_def)
next
  case False
  show ?thesis
  proof (cases "\<exists>b. typeOf env (underlyingOf env t) = TBasic b")
    case True
    then obtain b where b: "typeOf env (underlyingOf env t) = TBasic b" by blast
    obtain r1 st1 where r1: "parseBasic env b st = (r1, st1)" by (cases "parseBasic env b st")
    have p1: "P st1" using parseBasic_pres[OF c p r1] .
    show ?thesis using e False b r1 p1 closed_alloc[OF c p1]
      by (cases r1) (auto simp: parseNamedList_def)
  next
    case nb: False
    then have "parseNamedList env rec v t st = rec (goTypeName env (n_Underlying v)) (underlyingOf env (n_Underlying v)) st"
      using False by (auto simp: parseNamedList_def Let_def split: host_type.splits)
    with e have "rec (goTypeName env (n_Underlying v)) (underlyingOf env (n_Underlying v)) st = (r, st')"
      by simp
    then show ?thesis by (rule closed_rec[OF c p])
  qed
qed

lemma parseNamed_pres:
  assumes c: "closed P rec" and p: "P st" and e: "parseNamed env rec typ v st = (r, st')"
  shows "P st'"
proof -
  note al = closed_alloc[OF c p]
  note rc = closed_rec[OF c p]
  consider (time) "n_PkgPath v = Some ''time'' \<and> goTypeName env typ = ''Time''"
    | (enum) "\<not> (n_PkgPath v = Some ''time'' \<and> goTypeName env typ = ''Time'')"
             "n_PkgPath v = Some ''github.com/golang-cz/gospeak'' \<and> isEnumName (goTypeName env typ)"
    | (rest) "\<not> (n_PkgPath v = Some ''time'' \<and> goTypeName env typ = ''Time'')"
             "\<not> (n_PkgPath v = Some ''github.com/golang-cz/gospeak'' \<and> isEnumName (goTypeName env typ))"
    by blast
  then show ?thesis
  proof cases
    case time
    then show ?thesis using e al by (simp add: parseNamed_def Let_def)
  next
    case enum
    obtain r1 st1 where r1: "rec (goTypeName env (n_Underlying v)) (n_Underlying v) st = (r1, st1)"
      by (cases "rec (goTypeName env (n_Underlying v)) (n_Underlying v) st")
    have p1: "P st1" using rc[OF r1] .
    show ?thesis
      using e enum r1 p1 closed_alloc[OF c closed_appendType[OF c p1]]
      by (cases r1) (auto simp: parseNamed_def Let_def)
  next
    case rest
    show ?thesis
    proof (cases "n_TextMarshaler v")
      case True
      then show ?thesis using e rest al by (auto simp: parseNamed_def Let_def)
    next
      case False
      show ?thesis
        using e rest False al rc parseNamedList_pres[OF c p]
        by (cases "typeOf env (n_Underlying v)") (auto simp: parseNamed_def Let_def split: if_splits)
    qed
  qed
qed

lemma parseNamedType_switch_pres:
  assumes c: "closed P rec" and p: "P st" and e: "parseNamedType_switch env rec tn typ st = (r, st')"
  shows "P st'"
  using e p parseNamed_pres[OF c p] parseBasic_pres[OF c p] parseStruct_pres[OF c p]
    parseSlice_pres[OF c p] parseAny_pres[OF c p] parseMap_pres[OF c p] closed_rec[OF c p]
  by (cases "typeOf env typ") (auto simp: parseNamedType_switch_def split: if_splits)

section \<open>What the walker keeps\<close>

lemma parseNamedType_pres:
  assumes s: "stable P"
  shows "P st \<Longrightarrow> parseNamedType env n tn typ st = (r, st') \<Longrightarrow> P st'"
proof (induction n arbitrary: st tn "typ" r st')
  case 0
  then show ?case by simp
next
  case (Suc n)
  have c: "closed P (parseNamedType env n)"
    unfolding closed_def
  proof (intro conjI allI impI)
    fix v st assume "P st" then show "P (st\<lparr>heap := heap st @ [v]\<rparr>)"
      using s unfolding stable_def by blast
  next
    fix T st assume "P st" then show "P (appendType T st)"
      using s unfolding stable_def by blast
  next
    fix tn t st r st1 assume "P st" "parseNamedType env n tn t st = (r, st1)"
    then show "P st1" by (rule Suc.IH)
  qed
  show ?case
  proof (cases "parsedTypes st typ")
    case (Some a)
    then show ?thesis using Suc.prems by simp
  next
    case None
    have p1: "P (claim tn typ st)" using s Suc.prems(1) None unfolding stable_def by blast
    obtain r1 st1 where r1: "parseNamedType_switch env (parseNamedType env n) tn typ (claim tn typ st) = (r1, st1)"
      by (cases "parseNamedType_switch env (parseNamedType env n) tn typ (claim tn typ st)")
    have p2: "P st1" using parseNamedType_switch_pres[OF c p1 r1] .
    have bf: "\<And>c v. P (backfill c v st1)" using s p2 unfolding stable_def by blast
    show ?thesis
    proof (cases r1)
      case (Inl e)
      then show ?thesis using Suc.prems(2) None r1 p2 by (simp add: Let_def)
    next
      case (Inr v)
      then have "st' = backfill (length (heap st)) v st1"
        using Suc.prems(2) None r1 by (simp add: Let_def)
      then show ?thesis using bf by simp
    qed
  qed
qed

lemma ext_refl: "ext s s"
  by (simp add: ext_def)

lemma stable_ext: "stable (ext s)"
  by (auto simp: stable_def ext_def appendType_def claim_def backfill_def)

lemma parseNamedType_ext: "parseNamedType env n tn typ st = (r, st') \<Longrightarrow> ext st st'"
  using parseNamedType_pres[OF stable_ext ext_refl] .

lemma stable_closed: "stable P \<Longrightarrow> closed P (parseNamedType env n)"
  unfolding closed_def
proof (intro conjI allI impI)
  fix v st assume "stable P" "P st" then show "P (st\<lparr>heap := heap st @ [v]\<rparr>)"
    unfolding stable_def by blast
next
  fix T st assume "stable P" "P st" then show "P (appendType T st)"
    unfolding stable_def by blast
next
  fix tn t st r st1 assume "stable P" "P st" "parseNamedType env n tn t st = (r, st1)"
  then show "P st1" by (rule parseNamedType_pres)
qed

section \<open>Fuel\<close>


lemma wrap_OutOfFuel [simp]: "wrap s e = OutOfFuel \<longleftrightarrow> e = OutOfFuel"
  by (cases e) auto




lemma alloc_fuel: "alloc v st = (r, st1) \<Longrightarrow> r \<noteq> Inl OutOfFuel"
  by (auto simp: alloc_def)














lemma parseNamedType_failure_claimed:
  assumes "parseNamedType env n tn typ st = (Inl (Err e), st')"
  shows "parsedTypes st typ = None \<and> parsedTypes st' typ = Some (length (heap st))"
proof (cases n)
  case 0
  then show ?thesis using assms by simp
next
  case (Suc m)
  show ?thesis
  proof (cases "parsedTypes st typ")
    case (Some b)
    then show ?thesis using assms Suc by auto
  next
    case None
    let ?st1 = "claim tn typ st"
    obtain r1 st1 where r1: "parseNamedType_switch env (parseNamedType env m) tn typ ?st1 = (r1, st1)"
      by (cases "parseNamedType_switch env (parseNamedType env m) tn typ ?st1")
    have "ext ?st1 st1"
      using parseNamedType_switch_pres[OF stable_closed[OF stable_ext] ext_refl r1] .
    moreover have "parsedTypes ?st1 typ = Some (length (heap st))" by (simp add: claim_def)
    ultimately have m: "parsedTypes st1 typ = Some (length (heap st))" by (simp add: ext_def)
    show ?thesis using assms Suc None r1 m
      by (cases r1) (auto simp: Let_def backfill_def)
  qed
qed

section \<open>Interface types\<close>

lemma any_inv_empty: "any_inv env emptyParser"
  by (simp add: any_inv_def memo_wf_def emptyParser_def)

lemma any_inv_alloc: "any_inv env st \<Longrightarrow> any_inv env (st\<lparr>heap := heap st @ [v]\<rparr>)"
  unfolding any_inv_def memo_wf_def
  by (auto simp: nth_append less_SucI trans_less_add1)

lemma any_inv_appendType: "any_inv env st \<Longrightarrow> any_inv env (appendType T st)"
  unfolding any_inv_def memo_wf_def appendType_def by simp

lemma any_inv_claim:
  assumes i: "any_inv env st" and n: "\<not> isInterface (typeOf env typ)"
  shows "any_inv env (claim tn typ st)"
proof -
  have lt: "\<And>t a. parsedTypes st t = Some a \<Longrightarrow> a < length (heap st)"
    using i unfolding any_inv_def memo_wf_def by blast
  have inj: "\<And>t t' a. parsedTypes st t = Some a \<Longrightarrow> parsedTypes st t' = Some a \<Longrightarrow> t = t'"
    using i unfolding any_inv_def memo_wf_def by blast
  have iface: "\<And>t a. isInterface (typeOf env t) \<Longrightarrow> parsedTypes st t = Some a \<Longrightarrow> heap st ! a = anyVarType"
    using i unfolding any_inv_def by blast
  show ?thesis
    unfolding any_inv_def memo_wf_def claim_def
  proof (intro conjI allI impI)
    fix t a assume "parsedTypes (st\<lparr>parsedTypes := (parsedTypes st)(typ \<mapsto> length (heap st)), heap := heap st @ [mkVarType tn T_Invalid]\<rparr>) t = Some a"
    then show "a < length (heap (st\<lparr>parsedTypes := (parsedTypes st)(typ \<mapsto> length (heap st)), heap := heap st @ [mkVarType tn T_Invalid]\<rparr>))"
      using lt[of t a] by (auto split: if_splits)
  next
    fix t t' a
    assume "parsedTypes (st\<lparr>parsedTypes := (parsedTypes st)(typ \<mapsto> length (heap st)), heap := heap st @ [mkVarType tn T_Invalid]\<rparr>) t = Some a"
      and "parsedTypes (st\<lparr>parsedTypes := (parsedTypes st)(typ \<mapsto> length (heap st)), heap := heap st @ [mkVarType tn T_Invalid]\<rparr>) t' = Some a"
    then show "t = t'"
      using lt[of t a] lt[of t' a] inj[of t a t'] by (auto split: if_splits)
  next
    fix t a
    assume "isInterface (typeOf env t)"
      and "parsedTypes (st\<lparr>parsedTypes := (parsedTypes st)(typ \<mapsto> length (heap st)), heap := heap st @ [mkVarType tn T_Invalid]\<rparr>) t = Some a"
    then show "heap (st\<lparr>parsedTypes := (parsedTypes st)(typ \<mapsto> length (heap st)), heap := heap st @ [mkVarType tn T_Invalid]\<rparr>) ! a = anyVarType"
      using n lt[of t a] iface[of t a] by (auto split: if_splits simp: nth_append)
  qed
qed

lemma any_inv_backfill:
  assumes i: "any_inv env st" and m: "parsedTypes st typ = Some c" and n: "\<not> isInterface (typeOf env typ)"
  shows "any_inv env (backfill c v st)"
proof -
  have inj: "\<And>t t' a. parsedTypes st t = Some a \<Longrightarrow> parsedTypes st t' = Some a \<Longrightarrow> t = t'"
    using i unfolding any_inv_def memo_wf_def by blast
  have iface: "\<And>t a. isInterface (typeOf env t) \<Longrightarrow> parsedTypes st t = Some a \<Longrightarrow> heap st ! a = anyVarType"
    using i unfolding any_inv_def by blast
  have mwf: "memo_wf (backfill c v st)"
    using i unfolding any_inv_def memo_wf_def backfill_def by simp
  have "\<And>t a. isInterface (typeOf env t) \<Longrightarrow> parsedTypes st t = Some a \<Longrightarrow> (heap st)[c := heap st ! v] ! a = anyVarType"
  proof -
    fix t a assume t: "isInterface (typeOf env t)" and a: "parsedTypes st t = Some a"
    have "a \<noteq> c" using inj[OF a, of "typ"] m n t by auto
    then show "(heap st)[c := heap st ! v] ! a = anyVarType" using iface[OF t a] by simp
  qed
  then show ?thesis using mwf unfolding any_inv_def backfill_def by simp
qed

lemma any_inv_interface:
  assumes i: "any_inv env st" and t: "isInterface (typeOf env typ)"
  shows "\<exists>a st'. parseNamedType env (Suc n) tn typ st = (Inr a, st') \<and> heap st' ! a = anyVarType \<and> any_inv env st'"
proof (cases "parsedTypes st typ")
  case (Some a)
  then have "heap st ! a = anyVarType" using i t unfolding any_inv_def by blast
  then show ?thesis using Some i by simp
next
  case None
  let ?c = "length (heap st)"
  let ?st' = "st\<lparr>parsedTypes := (parsedTypes st)(typ \<mapsto> ?c), heap := heap st @ [anyVarType, anyVarType]\<rparr>"
  obtain ms where ms: "typeOf env typ = TInterface ms"
    using t by (cases "typeOf env typ") auto
  have e: "parseNamedType env (Suc n) tn typ st = (Inr ?c, ?st')"
    using None ms
    by (simp add: parseNamedType_switch_def parseAny_def alloc_def claim_def backfill_def anyVarType_def Let_def nth_append)
  have lt: "\<And>t a. parsedTypes st t = Some a \<Longrightarrow> a < length (heap st)"
    using i unfolding any_inv_def memo_wf_def by blast
  have inj: "\<And>t t' a. parsedTypes st t = Some a \<Longrightarrow> parsedTypes st t' = Some a \<Longrightarrow> t = t'"
    using i unfolding any_inv_def memo_wf_def by blast
  have iface: "\<And>t a. isInterface (typeOf env t) \<Longrightarrow> parsedTypes st t = Some a \<Longrightarrow> heap st ! a = anyVarType"
    using i unfolding any_inv_def by blast
  have "any_inv env ?st'"
    unfolding any_inv_def memo_wf_def
  proof (intro conjI allI impI)
    fix t a assume "parsedTypes ?st' t = Some a"
    then show "a < length (heap ?st')" using lt[of t a] by (auto split: if_splits)
  next
    fix t t' a assume "parsedTypes ?st' t = Some a" "parsedTypes ?st' t' = Some a"
    then show "t = t'" using lt[of t a] lt[of t' a] inj[of t a t'] by (auto split: if_splits)
  next
    fix t a assume "isInterface (typeOf env t)" "parsedTypes ?st' t = Some a"
    then show "heap ?st' ! a = anyVarType"
      using lt[of t a] iface[of t a] by (auto split: if_splits simp: nth_append)
  qed
  moreover have "heap ?st' ! ?c = anyVarType" by (simp add: nth_append)
  ultimately show ?thesis using e by blast
qed

lemma parseNamedType_any_inv:
  "any_inv env st \<Longrightarrow> parseNamedType env n tn typ st = (r, st') \<Longrightarrow> any_inv env st'"
proof (induction n arbitrary: st tn "typ" r st')
  case 0
  then show ?case by simp
next
  case (Suc n)
  show ?case
  proof (cases "isInterface (typeOf env typ)")
    case True
    from any_inv_interface[OF Suc.prems(1) True, of n tn] Suc.prems(2)
    show ?thesis by auto
  next
    case ni: False
    show ?thesis
    proof (cases "parsedTypes st typ")
      case (Some a)
      then show ?thesis using Suc.prems by auto
    next
      case None
      let ?st1 = "claim tn typ st"
      have c: "closed (any_inv env) (parseNamedType env n)"
        unfolding closed_def
      proof (intro conjI allI impI)
        fix v s assume "any_inv env s" then show "any_inv env (s\<lparr>heap := heap s @ [v]\<rparr>)"
          by (rule any_inv_alloc)
      next
        fix T s assume "any_inv env s" then show "any_inv env (appendType T s)"
          by (rule any_inv_appendType)
      next
        fix tn' t s r' s1 assume "any_inv env s" "parseNamedType env n tn' t s = (r', s1)"
        then show "any_inv env s1" by (rule Suc.IH)
      qed
      obtain r1 st1 where r1: "parseNamedType_switch env (parseNamedType env n) tn typ ?st1 = (r1, st1)"
        by (cases "parseNamedType_switch env (parseNamedType env n) tn typ ?st1")
      have i1: "any_inv env st1"
        using parseNamedType_switch_pres[OF c any_inv_claim[OF Suc.prems(1) ni] r1] .
      have "ext ?st1 st1"
        using parseNamedType_switch_pres[OF stable_closed[OF stable_ext] ext_refl r1] .
      moreover have "parsedTypes ?st1 typ = Some (length (heap st))" by (simp add: claim_def)
      ultimately have m: "parsedTypes st1 typ = Some (length (heap st))" by (simp add: ext_def)
      show ?thesis
      proof (cases r1)
        case (Inl e)
        then show ?thesis using Suc.prems(2) None r1 i1 by (simp add: Let_def)
      next
        case (Inr v)
        then have "st' = backfill (length (heap st)) v st1"
          using Suc.prems(2) None r1 by (simp add: Let_def)
        then show ?thesis using any_inv_backfill[OF i1 m ni] by simp
      qed
    qed
  qed
qed

lemma reachable_any_inv: "reachable env st \<Longrightarrow> any_inv env st"
proof (induction rule: reachable.induct)
  case reachable_empty
  then show ?case by (rule any_inv_empty)
next
  case (reachable_call st n typeName t)
  then show ?case
    using parseNamedType_any_inv[of env st n typeName t] by (cases "parseNamedType env n typeName t st") auto
qed

text \<open>
  C10: in every parser state of a parse, translating an interface type, with any method
  set, succeeds and returns a VarType of kind \<open>T_Any\<close> with the expression \<open>any\<close> and no other
  content.
\<close>

theorem interface_is_any:
  assumes "reachable env st" and "typeOf env typ = TInterface methods"
  shows "\<exists>a. fst (parseNamedType env (Suc n) typeName typ st) = Inr a
            \<and> heap (snd (parseNamedType env (Suc n) typeName typ st)) ! a = mkVarType ''any'' T_Any"
proof -
  have i: "any_inv env st" using assms(1) by (rule reachable_any_inv)
  have t: "isInterface (typeOf env typ)" using assms(2) by simp
  from any_inv_interface[OF i t, of n typeName] show ?thesis
    by (auto simp: anyVarType_def)
qed

theorem interface_is_any_witness:
  "reachable exEnv (snd (parseNamedType exEnv 5 [] 0 emptyParser))
   \<and> typeOf exEnv 11 = TInterface [''Error'']
   \<and> (\<exists>a. fst (parseNamedType exEnv (Suc 0) ''T'' 11 (snd (parseNamedType exEnv 5 [] 0 emptyParser))) = Inr a
          \<and> heap (snd (parseNamedType exEnv (Suc 0) ''T'' 11 (snd (parseNamedType exEnv 5 [] 0 emptyParser)))) ! a
              = mkVarType ''any'' T_Any)"
proof -
  have r: "reachable exEnv (snd (parseNamedType exEnv 5 [] 0 emptyParser))"
    by (rule reachable_call[OF reachable_empty])
  have t: "typeOf exEnv 11 = TInterface [''Error'']"
    by (simp add: exEnv_def exTypes_def)
  from interface_is_any[OF r t, of 0 "''T''"] r t show ?thesis by blast
qed

section \<open>Termination and the memo\<close>








section \<open>Struct fields\<close>

lemma appendAll_distinct:
  "distinct (map tf_Name acc) \<Longrightarrow> appendAll acc es = Inr out \<Longrightarrow> distinct (map tf_Name out)"
proof (induction es arbitrary: acc)
  case Nil
  then show ?case by simp
next
  case (Cons e es)
  let ?acc' = "filter (\<lambda>f. tf_Name f \<noteq> tf_Name e) acc @ [e]"
  have a: "appendOrOverrideExistingField acc e = Inr ?acc'" and d: "distinct (map tf_Name ?acc')"
    using aoe_unique[OF Cons.prems(1), of e] by blast+
  have "appendAll ?acc' es = Inr out" using Cons.prems(2) a by simp
  with d show ?case by (rule Cons.IH)
qed

lemma parseStruct_fields_distinct:
  "distinct (map tf_Name acc) \<Longrightarrow> parseStruct_fields env rec tn fs acc st = (Inr out, st')
     \<Longrightarrow> distinct (map tf_Name out)"
proof (induction fs arbitrary: acc st)
  case Nil
  then show ?case by simp
next
  case (Cons f fs)
  show ?case
  proof (cases "\<not> fv_Exported f")
    case True
    then show ?thesis using Cons by simp
  next
    case ex: False
    show ?thesis
    proof (cases "fv_Embedded f \<or> containsStr (fv_Tag f) ''json:\",inline\"''")
      case True
      obtain r1 st1 where r1: "rec [] (fv_Type f) st = (r1, st1)" by (cases "rec [] (fv_Type f) st")
      show ?thesis
        using Cons.prems ex True r1
        by (cases r1)
           (auto split: if_splits option.splits sum.splits;
            blast intro: Cons.IH dest: appendAll_distinct[OF Cons.prems(1)])+
    next
      case False
      obtain r1 st1 where r1: "parseStructField env rec tn f st = (r1, st1)"
        by (cases "parseStructField env rec tn f st")
      have a: "\<And>fld. appendOrOverrideExistingField acc fld = Inr (filter (\<lambda>f. tf_Name f \<noteq> tf_Name fld) acc @ [fld])"
        and d: "\<And>fld. distinct (map tf_Name (filter (\<lambda>f. tf_Name f \<noteq> tf_Name fld) acc @ [fld]))"
        using aoe_unique[OF Cons.prems(1)] by blast+
      show ?thesis
      proof (cases r1)
        case (Inl e)
        then show ?thesis using Cons.prems(2) ex False r1 by simp
      next
        case (Inr ofld)
        show ?thesis
        proof (cases ofld)
          case None
          then show ?thesis using Cons.prems ex False r1 Inr Cons.IH by simp
        next
          case (Some fld)
          then have "parseStruct_fields env rec tn fs (filter (\<lambda>f. tf_Name f \<noteq> tf_Name fld) acc @ [fld]) st1 = (Inr out, st')"
            using Cons.prems(2) ex False r1 Inr a by simp
          with d show ?thesis by (rule Cons.IH)
        qed
      qed
    qed
  qed
qed

lemma parseStruct_distinct:
  assumes "parseStruct env rec tn fs st = (Inr a, st')"
  shows "schemaTypes st' \<noteq> [] \<and> distinct (map tf_Name (ty_Fields (last (schemaTypes st'))))"
proof -
  obtain r1 st1 where r1: "parseStruct_fields env rec tn fs [] st = (r1, st1)"
    by (cases "parseStruct_fields env rec tn fs [] st")
  show ?thesis
  proof (cases r1)
    case (Inl e)
    then show ?thesis using assms r1 by (simp add: parseStruct_def)
  next
    case (Inr out)
    have "distinct (map tf_Name out)"
      using parseStruct_fields_distinct[of "[]"] r1 Inr by simp
    then show ?thesis using assms r1 Inr
      by (auto simp: parseStruct_def Let_def alloc_def appendType_def)
  qed
qed

lemma exEnv_child:
  "fst (parseStruct exEnv (parseNamedType exEnv 3) ''Child''
          [mkField ''Kind'' 5 [], (mkField ''Base'' 9 [])\<lparr>fv_Embedded := True\<rparr>] emptyParser) = Inr 6"
  by code_simp

lemma exEnv_child_fields:
  "map tf_Name (ty_Fields (last (schemaTypes (snd (parseStruct exEnv (parseNamedType exEnv 3) ''Child''
          [mkField ''Kind'' 5 [], (mkField ''Base'' 9 [])\<lparr>fv_Embedded := True\<rparr>] emptyParser)))))
     = [''ID'', ''Kind'']"
  by code_simp

text \<open>
  C2: on a field list with unique names \<open>appendOrOverrideExistingField\<close> removes the
  earlier entry of the same name, keeps the other entries in their order and puts the new
  field at the tail, and the names stay unique; hence the field list of every struct that
  \<open>parseStruct\<close> emits has unique names.
\<close>

theorem struct_field_names_unique:
  "(distinct (map tf_Name slice) \<longrightarrow>
      appendOrOverrideExistingField slice newItem
        = Inr (filter (\<lambda>f. tf_Name f \<noteq> tf_Name newItem) slice @ [newItem])
      \<and> distinct (map tf_Name (filter (\<lambda>f. tf_Name f \<noteq> tf_Name newItem) slice @ [newItem])))
   \<and> (fst (parseStruct env rec typeName structFields st) = Inr a \<longrightarrow>
      schemaTypes (snd (parseStruct env rec typeName structFields st)) \<noteq> []
      \<and> distinct (map tf_Name (ty_Fields (last (schemaTypes (snd (parseStruct env rec typeName structFields st)))))))"
proof (intro conjI impI)
  assume d: "distinct (map tf_Name slice)"
  show "appendOrOverrideExistingField slice newItem
          = Inr (filter (\<lambda>f. tf_Name f \<noteq> tf_Name newItem) slice @ [newItem])"
    using aoe_unique[OF d] by blast
  show "distinct (map tf_Name (filter (\<lambda>f. tf_Name f \<noteq> tf_Name newItem) slice @ [newItem]))"
    using aoe_unique[OF d] by blast
next
  assume "fst (parseStruct env rec typeName structFields st) = Inr a"
  then obtain st' where r: "parseStruct env rec typeName structFields st = (Inr a, st')"
    by (cases "parseStruct env rec typeName structFields st") auto
  show "schemaTypes (snd (parseStruct env rec typeName structFields st)) \<noteq> []"
    and "distinct (map tf_Name (ty_Fields (last (schemaTypes (snd (parseStruct env rec typeName structFields st))))))"
    using parseStruct_distinct[OF r] r by simp_all
qed

theorem struct_field_names_unique_witness:
  "distinct (map tf_Name [exField ''Kind'', exField ''ID''])
   \<and> appendOrOverrideExistingField [exField ''Kind'', exField ''ID''] ((exField ''Kind'')\<lparr>tf_Optional := True\<rparr>)
       = Inr [exField ''ID'', (exField ''Kind'')\<lparr>tf_Optional := True\<rparr>]
   \<and> fst (parseStruct exEnv (parseNamedType exEnv 3) ''Child''
          [mkField ''Kind'' 5 [], (mkField ''Base'' 9 [])\<lparr>fv_Embedded := True\<rparr>] emptyParser) = Inr 6
   \<and> distinct (map tf_Name (ty_Fields (last (schemaTypes (snd (parseStruct exEnv (parseNamedType exEnv 3) ''Child''
          [mkField ''Kind'' 5 [], (mkField ''Base'' 9 [])\<lparr>fv_Embedded := True\<rparr>] emptyParser))))))
   \<and> map tf_Name (ty_Fields (last (schemaTypes (snd (parseStruct exEnv (parseNamedType exEnv 3) ''Child''
          [mkField ''Kind'' 5 [], (mkField ''Base'' 9 [])\<lparr>fv_Embedded := True\<rparr>] emptyParser)))))
       = [''ID'', ''Kind'']"
proof -
  have d: "distinct (map tf_Name [exField ''Kind'', exField ''ID''])"
    by (simp add: exField_def)
  from struct_field_names_unique
    [of "[exField ''Kind'', exField ''ID'']" "(exField ''Kind'')\<lparr>tf_Optional := True\<rparr>"
        exEnv "parseNamedType exEnv 3" "''Child''"
        "[mkField ''Kind'' 5 [], (mkField ''Base'' 9 [])\<lparr>fv_Embedded := True\<rparr>]" emptyParser 6]
    d exEnv_child exEnv_child_fields
  show ?thesis by (simp add: exField_def)
qed

lemma parseStructField_shape:
  assumes "parseStructField env rec structTypeName field st = (Inr (Some f), st')"
  shows "tf_Optional f =
           (Omitempty (fst (getJsonTag (fv_Tag field)))
            \<or> (\<not> IsString (fst (getJsonTag (fv_Tag field)))
                \<and> isPointer (typeOf env (underlyingOf env (fv_Type field)))))
       \<and> tf_Meta f ! 1 = (''go.field.type'', goTypeName env (fv_Type field))"
proof -
  obtain jt ok where g: "getJsonTag (fv_Tag field) = (jt, ok)" by (cases "getJsonTag (fv_Tag field)")
  have z: "\<not> ok \<Longrightarrow> jt = jsonTag_zero"
    using g by (auto simp: getJsonTag_def split: if_splits option.splits prod.splits)
  show ?thesis
  proof (cases ok)
    case True
    then show ?thesis
      using assms
      by (auto simp: parseStructField_def Let_def g alloc_def fieldMeta_def
               split: if_splits prod.splits sum.splits)
  next
    case False
    then have "jt = jsonTag_zero" by (rule z)
    then show ?thesis
      using assms False
      by (auto simp: parseStructField_def Let_def g alloc_def fieldMeta_def jsonTag_zero_def
               split: if_splits prod.splits sum.splits)
  qed
qed

lemma Parser_parseStructField_shape:
  assumes "Parser_parseStructField env GoTypeName GoTypeImport rec structTypeName field jsonTag st = (Inr (Some f), st')"
  shows "tf_Optional f =
           (jt_Omitempty jsonTag
            \<or> (\<not> jt_IsString jsonTag \<and> isPointer (typeOf env (underlyingOf env (fv_Type field)))))
       \<and> tf_Meta f ! 1 =
           (''go.field.type'',
            (if \<not> jt_IsString jsonTag \<and> isPointer (typeOf env (underlyingOf env (fv_Type field))) then ''*'' else [])
            @ (if jt_Omitempty jsonTag then ''*'' else [])
            @ GoTypeName (fv_Type field))"
  using assms
  by (auto simp: Parser_parseStructField_def Let_def alloc_def fieldMeta_def
           split: if_splits prod.splits sum.splits)

lemma exEmail_root:
  "fst (parseStructField exEnv (parseNamedType exEnv 3) ''P'' exEmail emptyParser)
     = Inr (Some \<lparr>tf_Name = ''email'', tf_Type = Some 0, tf_Value = [], tf_Optional = True,
                  tf_Meta = [(''go.field.name'', ''Email''), (''go.field.type'', ''string''),
                             (''go.tag.json'', ''email,omitempty'')]\<rparr>)"
  by code_simp

lemma exEmail_internal:
  "fst (Parser_parseStructField exEnv (goTypeName exEnv) (goTypeImport exEnv) (parseNamedType exEnv 3)
          ''P'' exEmail exEmailTag emptyParser)
     = Inr (Some \<lparr>tf_Name = ''email'', tf_Type = Some 0, tf_Value = [], tf_Optional = True,
                  tf_Meta = [(''go.field.name'', ''Email''), (''go.field.type'', ''*string''),
                             (''go.tag.json'', ''email,omitempty'')]\<rparr>)"
  by code_simp

lemma exID_root:
  "fst (parseStructField exEnv (parseNamedType exEnv 3) ''X'' exID emptyParser)
     = Inr (Some \<lparr>tf_Name = ''id'', tf_Type = Some 0, tf_Value = [], tf_Optional = False,
                  tf_Meta = [(''go.field.name'', ''ID''), (''go.field.type'', ''int64''),
                             (''go.tag.json'', ''id,string'')]\<rparr>)"
  by code_simp

lemma exID_internal:
  "fst (Parser_parseStructField exEnv (goTypeName exEnv) (goTypeImport exEnv) (parseNamedType exEnv 3)
          ''X'' exID exIDTag emptyParser)
     = Inr (Some \<lparr>tf_Name = ''id'', tf_Type = Some 0, tf_Value = [], tf_Optional = False,
                  tf_Meta = [(''go.field.name'', ''ID''), (''go.field.type'', ''int64''),
                             (''go.tag.json'', ''id,string'')]\<rparr>)"
  by code_simp




text \<open>
  C6, as amended: the walker of internal/parser records for a field with \<open>omitempty\<close> the
  host type expression prefixed with \<open>*\<close> (and with a second \<open>*\<close> when the field is a pointer
  without the string option); the walker of types.go records the host type expression
  without any prefix.
\<close>

theorem field_type_prefix:
  "(fst (Parser_parseStructField env GoTypeName GoTypeImport rec structTypeName field jsonTag st) = Inr (Some f)
      \<and> jt_Omitempty jsonTag \<longrightarrow>
      tf_Optional f
      \<and> tf_Meta f ! 1 =
          (''go.field.type'',
           (if \<not> jt_IsString jsonTag \<and> isPointer (typeOf env (underlyingOf env (fv_Type field))) then ''*'' else [])
           @ ''*'' @ GoTypeName (fv_Type field)))
   \<and> (fst (parseStructField env rec structTypeName field st) = Inr (Some f') \<longrightarrow>
      tf_Meta f' ! 1 = (''go.field.type'', goTypeName env (fv_Type field)))"
proof (intro conjI impI)
  assume a: "fst (Parser_parseStructField env GoTypeName GoTypeImport rec structTypeName field jsonTag st) = Inr (Some f)
      \<and> jt_Omitempty jsonTag"
  then obtain st' where
    "Parser_parseStructField env GoTypeName GoTypeImport rec structTypeName field jsonTag st = (Inr (Some f), st')"
    by (cases "Parser_parseStructField env GoTypeName GoTypeImport rec structTypeName field jsonTag st") auto
  from Parser_parseStructField_shape[OF this] a
  show "tf_Optional f"
    and "tf_Meta f ! 1 =
          (''go.field.type'',
           (if \<not> jt_IsString jsonTag \<and> isPointer (typeOf env (underlyingOf env (fv_Type field))) then ''*'' else [])
           @ ''*'' @ GoTypeName (fv_Type field))"
    by simp_all
next
  assume "fst (parseStructField env rec structTypeName field st) = Inr (Some f')"
  then obtain st' where "parseStructField env rec structTypeName field st = (Inr (Some f'), st')"
    by (cases "parseStructField env rec structTypeName field st") auto
  from parseStructField_shape[OF this]
  show "tf_Meta f' ! 1 = (''go.field.type'', goTypeName env (fv_Type field))" by blast
qed

theorem field_type_prefix_witness:
  "jt_Omitempty exEmailTag
   \<and> fst (Parser_parseStructField exEnv (goTypeName exEnv) (goTypeImport exEnv) (parseNamedType exEnv 3)
          ''P'' exEmail exEmailTag emptyParser)
     = Inr (Some \<lparr>tf_Name = ''email'', tf_Type = Some 0, tf_Value = [], tf_Optional = True,
                  tf_Meta = [(''go.field.name'', ''Email''), (''go.field.type'', ''*string''),
                             (''go.tag.json'', ''email,omitempty'')]\<rparr>)
   \<and> goTypeName exEnv (fv_Type exEmail) = ''string''
   \<and> fst (parseStructField exEnv (parseNamedType exEnv 3) ''P'' exEmail emptyParser)
     = Inr (Some \<lparr>tf_Name = ''email'', tf_Type = Some 0, tf_Value = [], tf_Optional = True,
                  tf_Meta = [(''go.field.name'', ''Email''), (''go.field.type'', ''string''),
                             (''go.tag.json'', ''email,omitempty'')]\<rparr>)"
proof -
  have g: "goTypeName exEnv (fv_Type exEmail) = ''string''" by code_simp
  from field_type_prefix
    [where env = exEnv and rec = "parseNamedType exEnv 3" and structTypeName = "''P''"
       and field = exEmail and st = emptyParser and GoTypeName = "goTypeName exEnv"
       and GoTypeImport = "goTypeImport exEnv" and jsonTag = exEmailTag
       and f = "\<lparr>tf_Name = ''email'', tf_Type = Some 0, tf_Value = [], tf_Optional = True,
                  tf_Meta = [(''go.field.name'', ''Email''), (''go.field.type'', ''*string''),
                             (''go.tag.json'', ''email,omitempty'')]\<rparr>"
       and f' = "\<lparr>tf_Name = ''email'', tf_Type = Some 0, tf_Value = [], tf_Optional = True,
                  tf_Meta = [(''go.field.name'', ''Email''), (''go.field.type'', ''string''),
                             (''go.tag.json'', ''email,omitempty'')]\<rparr>"]
    exEmail_root exEmail_internal g
  show ?thesis by (simp add: exEmailTag_def)
qed

text \<open>
  C6, as stated, fails in types.go: for \<open>Email string\<close> tagged \<open>json:"email,omitempty"\<close> the
  field is Optional and \<open>go.field.type\<close> is \<open>string\<close>, not \<open>*string\<close>.
\<close>

theorem omitempty_no_prefix_counterexample:
  "Omitempty (fst (getJsonTag (fv_Tag exEmail)))
   \<and> fst (parseStructField exEnv (parseNamedType exEnv 3) ''P'' exEmail emptyParser)
     = Inr (Some \<lparr>tf_Name = ''email'', tf_Type = Some 0, tf_Value = [], tf_Optional = True,
                  tf_Meta = [(''go.field.name'', ''Email''), (''go.field.type'', ''string''),
                             (''go.tag.json'', ''email,omitempty'')]\<rparr>)"
  by code_simp

section \<open>The tag parser\<close>

lemmas tag_defs = getJsonTag_def jsonTagRegex_at_def jsonTagRegex_body_def isSpace_def
  notCommaQuote_def notQuote_def jsonTag_zero_def

text \<open>
  C7: the options are searched as substrings, so the unknown option \<open>stringify\<close> sets
  \<open>IsString\<close> and the unknown option \<open>omitemptyX\<close> sets \<open>Omitempty\<close>, while the same tag
  without the option leaves both flags unset.
\<close>

theorem getJsonTag_unknown_option:
  "getJsonTag ''json:\"id,stringify\"'' =
     (\<lparr>Name = ''id'', Value = ''id,stringify'', IsString = True, Omitempty = False\<rparr>, True)
   \<and> getJsonTag ''json:\"id,omitemptyX\"'' =
     (\<lparr>Name = ''id'', Value = ''id,omitemptyX'', IsString = False, Omitempty = True\<rparr>, True)
   \<and> getJsonTag ''json:\"id\"'' =
     (\<lparr>Name = ''id'', Value = ''id'', IsString = False, Omitempty = False\<rparr>, True)"
  by (simp add: tag_defs)

section \<open>Maps\<close>

lemma exEnv_map_key: "fst (parseNamedType exEnv 4 [] 1 (claim [] 0 emptyParser)) = Inr 1"
  by code_simp

lemma exEnv_map_val: "fst (parseNamedType exEnv 4 [] 2 (snd (parseNamedType exEnv 4 [] 1 (claim [] 0 emptyParser)))) = Inr 3"
  by code_simp

text \<open>
  C3, as amended: for a map type that is not in the memo, whenever its key type and its
  value type translate, the translator succeeds and emits a Map VarType that carries the
  kind of the key's VarType, whatever that kind is, and the value descriptor. No check of
  the key kind exists.
\<close>

theorem map_key_unchecked:
  assumes t: "typeOf env typ = TMap keyT elemT" and miss: "parsedTypes st typ = None"
    and k: "fst (parseNamedType env n typeName keyT (claim typeName typ st)) = Inr key"
    and v: "fst (parseNamedType env n typeName elemT
                  (snd (parseNamedType env n typeName keyT (claim typeName typ st)))) = Inr val"
  shows "fst (parseNamedType env (Suc n) typeName typ st) = Inr (length (heap st))
       \<and> vt_Type (heap (snd (parseNamedType env (Suc n) typeName typ st)) ! length (heap st)) = T_Map
       \<and> vt_Map (heap (snd (parseNamedType env (Suc n) typeName typ st)) ! length (heap st))
           = Some (vt_Type (heap (snd (parseNamedType env n typeName elemT
                      (snd (parseNamedType env n typeName keyT (claim typeName typ st))))) ! key), val)"
proof -
  let ?st0 = "claim typeName typ st"
  obtain st1 where r1: "parseNamedType env n typeName keyT ?st0 = (Inr key, st1)"
    using k by (cases "parseNamedType env n typeName keyT ?st0") auto
  obtain st2 where r2: "parseNamedType env n typeName elemT st1 = (Inr val, st2)"
    using v r1 by (cases "parseNamedType env n typeName elemT st1") auto
  have "ext ?st0 st1" using parseNamedType_ext[OF r1] .
  moreover have "ext st1 st2" using parseNamedType_ext[OF r2] .
  ultimately have len: "length (heap st) < length (heap st2)"
    unfolding ext_def by (simp add: claim_def)
  show ?thesis
    using t miss r1 r2 len
    by (simp add: parseNamedType_switch_def parseMap_def alloc_def backfill_def Let_def mkVarType_def nth_append)
qed

theorem map_key_unchecked_witness:
  "typeOf exEnv 0 = TMap 1 2 \<and> parsedTypes (emptyParser :: nat parser) 0 = None
   \<and> fst (parseNamedType exEnv 4 [] 1 (claim [] 0 emptyParser)) = Inr 1
   \<and> fst (parseNamedType exEnv 4 [] 2 (snd (parseNamedType exEnv 4 [] 1 (claim [] 0 emptyParser)))) = Inr 3
   \<and> fst (parseNamedType exEnv 5 [] 0 emptyParser) = Inr 0
   \<and> vt_Type (heap (snd (parseNamedType exEnv 5 [] 0 emptyParser)) ! 0) = T_Map"
proof -
  have t: "typeOf exEnv 0 = TMap 1 2" by (simp add: exEnv_def exTypes_def)
  have m: "parsedTypes (emptyParser :: nat parser) 0 = None" by (simp add: emptyParser_def)
  have h: "length (heap (emptyParser :: nat parser)) = 0" by (simp add: emptyParser_def)
  from map_key_unchecked[OF t m exEnv_map_key exEnv_map_val] t m exEnv_map_key exEnv_map_val h
  show ?thesis by (simp add: numeral_eq_Suc)
qed

text \<open>
  C3, as stated, fails: the key of \<open>map[struct{}]interface{}\<close> is a struct, and the
  translator returns a Map VarType whose key kind is \<open>T_Struct\<close>.
\<close>

theorem map_struct_key_counterexample:
  "typeOf exEnv 0 = TMap 1 2 \<and> typeOf exEnv 1 = TStruct []
   \<and> fst (parseNamedType exEnv 5 [] 0 emptyParser) = Inr 0
   \<and> vt_Type (heap (snd (parseNamedType exEnv 5 [] 0 emptyParser)) ! 0) = T_Map
   \<and> vt_Map (heap (snd (parseNamedType exEnv 5 [] 0 emptyParser)) ! 0) = Some (T_Struct, 3)"
  by code_simp

section \<open>Failure\<close>

lemma exEnv_fail: "fst (parseNamedType exEnv 5 ''T'' 3 emptyParser)
     = Inl (Err (ErrWrap ''parsing struct field'' (ErrWrap ''failed to parse var'' ErrUnsupported)))"
  by code_simp

text \<open>
  C4, as amended: when the translator returns an error, nothing is unwound. The memo
  entries and the Schema's Types from before the call are kept, the Types as a prefix of
  the list after the call; the type of the failed call was not in the memo before and is
  left claimed in it, bound to its placeholder.
\<close>

theorem parseNamedType_failure_effects:
  assumes "fst (parseNamedType env n typeName typ st) = Inl (Err e)"
  shows "parsedTypes st \<subseteq>\<^sub>m parsedTypes (snd (parseNamedType env n typeName typ st))
       \<and> take (length (schemaTypes st)) (schemaTypes (snd (parseNamedType env n typeName typ st))) = schemaTypes st
       \<and> parsedTypes st typ = None
       \<and> parsedTypes (snd (parseNamedType env n typeName typ st)) typ = Some (length (heap st))"
proof -
  obtain st' where r: "parseNamedType env n typeName typ st = (Inl (Err e), st')"
    using assms by (cases "parseNamedType env n typeName typ st") auto
  have x: "ext st st'" using parseNamedType_ext[OF r] .
  have "parsedTypes st \<subseteq>\<^sub>m parsedTypes st'"
    using x unfolding ext_def map_le_def by (metis domD)
  moreover have "take (length (schemaTypes st)) (schemaTypes st') = schemaTypes st"
    using x unfolding ext_def by auto
  ultimately show ?thesis using parseNamedType_failure_claimed[OF r] r by simp
qed

theorem parseNamedType_failure_effects_witness:
  "fst (parseNamedType exEnv 5 ''T'' 3 emptyParser)
     = Inl (Err (ErrWrap ''parsing struct field'' (ErrWrap ''failed to parse var'' ErrUnsupported)))
   \<and> parsedTypes (snd (parseNamedType exEnv 5 ''T'' 3 emptyParser)) 3 = Some (length (heap (emptyParser :: nat parser)))"
  using parseNamedType_failure_effects[OF exEnv_fail] exEnv_fail by simp

text \<open>
  C4, as stated, fails: translating \<open>struct{A struct{}; B chan int}\<close> with the empty
  parser returns an error for \<open>B\<close>, and afterwards the Schema holds the Type of \<open>A\<close> and the
  memo holds the struct.
\<close>

theorem failure_not_atomic_counterexample:
  "fst (parseNamedType exEnv 5 ''T'' 3 emptyParser)
     = Inl (Err (ErrWrap ''parsing struct field'' (ErrWrap ''failed to parse var'' ErrUnsupported)))
   \<and> schemaTypes (emptyParser :: nat parser) = []
   \<and> schemaTypes (snd (parseNamedType exEnv 5 ''T'' 3 emptyParser))
       = [\<lparr>ty_Kind = ''struct'', ty_Name = ''TAnonymousA'', ty_Type = None, ty_Fields = []\<rparr>]
   \<and> parsedTypes (emptyParser :: nat parser) 3 = None
   \<and> parsedTypes (snd (parseNamedType exEnv 5 ''T'' 3 emptyParser)) 3 = Some 0"
  by code_simp

section \<open>Enums\<close>






end
